theory Spec2Isabelle
  imports Main
begin

section \<open>The store of slices\<close>

text \<open>
  A Go slice is a header (array pointer, length, capacity) over a backing array that
  lives in the store. Two headers may point into the same array, so the arrays are kept
  in an explicit store: \<open>cells h a i\<close> is element \<open>i\<close> of the array at address
  \<open>a\<close>, and every address below \<open>nalloc h\<close> has been handed out. An element that
  holds the zero value of its type (for a function type: the nil function) is \<open>None\<close>.
  \<open>growcap h\<close> is the capacity the runtime picks when \<open>append\<close> has to grow (old
  capacity, needed length); the language only promises an array that is large enough,
  so the policy is left open.
\<close>

record 'a heap =
  cells :: "nat \<Rightarrow> nat \<Rightarrow> 'a option"
  nalloc :: nat
  growcap :: "nat \<Rightarrow> nat \<Rightarrow> nat"

text \<open>
  The nil slice has no array, length 0 and capacity 0. Any other header names the
  array, the offset of its first element in the array, its length and its capacity.
\<close>

datatype slice = NilSlice | Slice nat nat nat nat

fun len :: "slice \<Rightarrow> nat" where
  "len NilSlice = 0"
| "len (Slice a off n c) = n"

fun cap :: "slice \<Rightarrow> nat" where
  "cap NilSlice = 0"
| "cap (Slice a off n c) = c"

text \<open>\<open>s[i]\<close> for \<open>i < len s\<close>, the only indices the loops below produce.\<close>

fun index :: "'a heap \<Rightarrow> slice \<Rightarrow> nat \<Rightarrow> 'a option" where
  "index h NilSlice i = None"
| "index h (Slice a off n c) i = cells h a (off + i)"

definition elems :: "'a heap \<Rightarrow> slice \<Rightarrow> 'a option list" where
  "elems h s = map (index h s) [0..<len s]"

text \<open>The addresses of the cells a slice can reach (up to its capacity).\<close>

fun footprint :: "slice \<Rightarrow> (nat \<times> nat) set" where
  "footprint NilSlice = {}"
| "footprint (Slice a off n c) = {(a, j) | j. off \<le> j \<and> j < off + c}"

text \<open>A slice value of the store \<open>h\<close> points to an array that \<open>h\<close> has handed out.\<close>

fun allocated :: "'a heap \<Rightarrow> slice \<Rightarrow> bool" where
  "allocated h NilSlice = True"
| "allocated h (Slice a off n c) = (a < nalloc h)"

text \<open>
  \<open>make([]T, n)\<close>: a new array of \<open>n\<close> zero values. (For \<open>n = 0\<close> the runtime
  returns a pointer to a shared zero-size object; the header then reaches no cell at
  all, as here.)
\<close>

definition make_slice :: "nat \<Rightarrow> 'a heap \<Rightarrow> slice \<times> 'a heap" where
  "make_slice n h =
     (Slice (nalloc h) 0 n n,
      h\<lparr>cells := (cells h)(nalloc h := (\<lambda>j. None)), nalloc := Suc (nalloc h)\<rparr>)"

text \<open>\<open>s[lo:]\<close>, called below with \<open>lo \<le> len s\<close> only.\<close>

fun slice_from :: "slice \<Rightarrow> nat \<Rightarrow> slice" where
  "slice_from NilSlice lo = NilSlice"
| "slice_from (Slice a off n c) lo = Slice a (off + lo) (n - lo) (c - lo)"

text \<open>
  \<open>copy(dst, src)\<close> moves \<open>min (len dst) (len src)\<close> elements, reading all of them
  before it writes (the builtin is safe on overlapping slices). The builtin's result,
  the number of elements copied, is dropped at both calls in the source.
\<close>

fun copy_slice :: "slice \<Rightarrow> slice \<Rightarrow> 'a heap \<Rightarrow> 'a heap" where
  "copy_slice NilSlice src h = h"
| "copy_slice (Slice a off n c) src h =
     (let k = min n (len src); vs = elems h src
      in h\<lparr>cells := (cells h)(a := (\<lambda>j. if off \<le> j \<and> j < off + k
                                           then vs ! (j - off) else cells h a j))\<rparr>)"

text \<open>
  \<open>append(s, xs...)\<close>: when the capacity of \<open>s\<close> holds the result, the elements are
  written behind \<open>s\<close> in its own array; otherwise a new array is allocated, large
  enough for both, and the result points there.
\<close>

definition append_slice :: "slice \<Rightarrow> slice \<Rightarrow> 'a heap \<Rightarrow> slice \<times> 'a heap" where
  "append_slice s xs h =
     (let n = len s + len xs in
      if n \<le> cap s then
        (case s of
           NilSlice \<Rightarrow> (NilSlice, h)
         | Slice a off m c \<Rightarrow>
             (Slice a off n c, copy_slice (Slice a (off + m) (len xs) (c - m)) xs h))
      else
        (let a = nalloc h; vs = elems h s @ elems h xs
         in (Slice a 0 n (max n (growcap h (cap s) n)),
             h\<lparr>cells := (cells h)(a := (\<lambda>j. if j < n then vs ! j else None)),
               nalloc := Suc a\<rparr>)))"

text \<open>
  A call \<open>f(x1, ..., xn)\<close> of a variadic function passes a new slice over a new array
  holding the arguments, and the nil slice when there is none; \<open>f(s...)\<close> passes
  \<open>s\<close> itself.
\<close>

definition variadic :: "'a option list \<Rightarrow> 'a heap \<Rightarrow> slice \<times> 'a heap" where
  "variadic xs h =
     (if xs = [] then (NilSlice, h)
      else (Slice (nalloc h) 0 (length xs) (length xs),
            h\<lparr>cells := (cells h)(nalloc h := (\<lambda>j. if j < length xs then xs ! j else None)),
              nalloc := Suc (nalloc h)\<rparr>))"

section \<open>Handlers, constructors and the adapter\<close>

text \<open>
  What a run can end with instead of a result: \<open>Fatal\<close> is \<open>log.Fatalf\<close> (the
  message is logged and the process exits), \<open>NilDeref\<close> the runtime panic of calling
  a nil function or a method of a nil interface, \<open>Raised\<close> a panic of a handler or
  constructor supplied by the caller. What had been done before the run ended stays
  done, so a failure comes with the state at that point, as a result does.
\<close>

datatype error = Fatal string | NilDeref | Raised string

text \<open>
  A handler acts on the world \<open>'w\<close> outside this package, given the context, the
  response writer and the request. A \<open>ContextHandlerFunc\<close> is a function value and
  may be nil. A \<open>ContextHandler\<close> is an interface value: nil, or a value of some
  implementing type, which is \<open>ContextHandlerFunc\<close> or a type of the caller.
\<close>

type_synonym ('c, 'rw, 'rq, 'w) serve = "'c \<Rightarrow> 'rw \<Rightarrow> 'rq \<Rightarrow> 'w \<Rightarrow> error \<times> 'w + 'w"

type_synonym ('c, 'rw, 'rq, 'w) ContextHandlerFunc = "('c, 'rw, 'rq, 'w) serve option"

datatype ('c, 'rw, 'rq, 'w) dynamic =
    HandlerFunc "('c, 'rw, 'rq, 'w) ContextHandlerFunc"
  | Implementer "('c, 'rw, 'rq, 'w) serve"

type_synonym ('c, 'rw, 'rq, 'w) ContextHandler = "('c, 'rw, 'rq, 'w) dynamic option"

fun ServeHTTPContext ::
  "('c, 'rw, 'rq, 'w) ContextHandler \<Rightarrow> ('c, 'rw, 'rq, 'w) serve" where
  "ServeHTTPContext None cx rw r w = Inl (NilDeref, w)"
| "ServeHTTPContext (Some (HandlerFunc None)) cx rw r w = Inl (NilDeref, w)"
| "ServeHTTPContext (Some (HandlerFunc (Some h))) cx rw r w = h cx rw r w"
| "ServeHTTPContext (Some (Implementer f)) cx rw r w = f cx rw r w"

record ('c, 'rw, 'rq, 'w) ContextAdapter =
  ctx :: 'c
  handler :: "('c, 'rw, 'rq, 'w) ContextHandler"

definition NewContextAdapter ::
  "'c \<Rightarrow> ('c, 'rw, 'rq, 'w) ContextHandler \<Rightarrow> ('c, 'rw, 'rq, 'w) ContextAdapter" where
  "NewContextAdapter c handler_arg = \<lparr>ctx = c, handler = handler_arg\<rparr>"

definition ServeHTTP ::
  "('c, 'rw, 'rq, 'w) ContextAdapter \<Rightarrow> 'rw \<Rightarrow> 'rq \<Rightarrow> 'w \<Rightarrow> error \<times> 'w + 'w" where
  "ServeHTTP ca rw req w = ServeHTTPContext (handler ca) (ctx ca) rw req w"

text \<open>
  A constructor is a function of the caller: it may act on the world and may panic.
  The slices hold constructor values, \<open>None\<close> being the nil function. The field
  \<open>constructors\<close> is not exported and \<open>New\<close> copies what it is given, so the
  code of the caller holds no reference to an array of a chain: constructors and
  handlers act on the world, and the store of slices changes only through the
  functions of this package.
\<close>

type_synonym ('c, 'rw, 'rq, 'w) Constructor =
  "('c, 'rw, 'rq, 'w) ContextHandler \<Rightarrow> 'w
     \<Rightarrow> error \<times> 'w + ('c, 'rw, 'rq, 'w) ContextHandler \<times> 'w"

fun call ::
  "('c, 'rw, 'rq, 'w) Constructor option \<Rightarrow> ('c, 'rw, 'rq, 'w) Constructor" where
  "call None x w = Inl (NilDeref, w)"
| "call (Some k) x w = k x w"

section \<open>Chains\<close>

record Chain =
  constructors :: slice

definition New :: "slice \<Rightarrow> 'a heap \<Rightarrow> Chain \<times> 'a heap" where
  "New constructors_arg h =
     (let c = \<lparr>constructors = NilSlice\<rparr>;
          (s, h') = append_slice (constructors c) constructors_arg h
      in (c\<lparr>constructors := s\<rparr>, h'))"

text \<open>
  The functions of the package pass the state along: they take the store and the
  world and return both, with a result or with a failure. The loop of
  \<open>ThenWithContext\<close>, \<open>for i := len - 1; i >= 0; i--\<close>, reads the store at
  \<open>c.constructors[i]\<close> and hands the world to the constructor it calls; the third
  argument is \<open>i + 1\<close>.
\<close>

fun wrap_loop ::
  "('c, 'rw, 'rq, 'w) Constructor heap \<Rightarrow> slice \<Rightarrow> nat
     \<Rightarrow> ('c, 'rw, 'rq, 'w) ContextHandler \<Rightarrow> 'w
     \<Rightarrow> error \<times> ('c, 'rw, 'rq, 'w) Constructor heap \<times> 'w
         + ('c, 'rw, 'rq, 'w) ContextHandler \<times> ('c, 'rw, 'rq, 'w) Constructor heap \<times> 'w" where
  "wrap_loop h s 0 final w = Inr (final, h, w)"
| "wrap_loop h s (Suc i) final w =
     (case call (index h s i) final w of
        Inl (e, w') \<Rightarrow> Inl (e, h, w')
      | Inr (final', w') \<Rightarrow> wrap_loop h s i final' w')"

definition ThenWithContext ::
  "Chain \<Rightarrow> 'c \<Rightarrow> ('c, 'rw, 'rq, 'w) ContextHandler \<Rightarrow> ('c, 'rw, 'rq, 'w) Constructor heap
     \<Rightarrow> 'w
     \<Rightarrow> error \<times> ('c, 'rw, 'rq, 'w) Constructor heap \<times> 'w
         + ('c, 'rw, 'rq, 'w) ContextAdapter \<times> ('c, 'rw, 'rq, 'w) Constructor heap \<times> 'w" where
  "ThenWithContext c cnx h hp w =
     (case h of
        None \<Rightarrow> Inl (Fatal ''Error Contexthandler cant be null'', hp, w)
      | Some _ \<Rightarrow>
          (case wrap_loop hp (constructors c) (len (constructors c)) h w of
             Inl e \<Rightarrow> Inl e
           | Inr (final, hp', w') \<Rightarrow> Inr (NewContextAdapter cnx final, hp', w')))"

definition ThenFuncWithContext ::
  "Chain \<Rightarrow> 'c \<Rightarrow> ('c, 'rw, 'rq, 'w) ContextHandlerFunc \<Rightarrow> ('c, 'rw, 'rq, 'w) Constructor heap
     \<Rightarrow> 'w
     \<Rightarrow> error \<times> ('c, 'rw, 'rq, 'w) Constructor heap \<times> 'w
         + ('c, 'rw, 'rq, 'w) ContextAdapter \<times> ('c, 'rw, 'rq, 'w) Constructor heap \<times> 'w" where
  "ThenFuncWithContext c cnx fn hp w =
     (if fn = None then ThenWithContext c cnx None hp w
      else ThenWithContext c cnx (Some (HandlerFunc fn)) hp w)"

definition Append :: "Chain \<Rightarrow> slice \<Rightarrow> 'a heap \<Rightarrow> Chain \<times> 'a heap" where
  "Append c constructors_arg h =
     (let (newCons, h1) = make_slice (len (constructors c) + len constructors_arg) h;
          h2 = copy_slice newCons (constructors c) h1;
          h3 = copy_slice (slice_from newCons (len (constructors c))) constructors_arg h2
      in New newCons h3)"

definition Extend :: "Chain \<Rightarrow> Chain \<Rightarrow> 'a heap \<Rightarrow> Chain \<times> 'a heap" where
  "Extend c chain h = Append c (constructors chain) h"

text \<open>
  The calls \<open>New(x1, ..., xn)\<close> and \<open>c.Append(x1, ..., xn)\<close> with the arguments
  written out, as in the examples of the documentation.
\<close>

definition New_args :: "'a option list \<Rightarrow> 'a heap \<Rightarrow> Chain \<times> 'a heap" where
  "New_args xs h = (let (s, h1) = variadic xs h in New s h1)"

definition Append_args :: "Chain \<Rightarrow> 'a option list \<Rightarrow> 'a heap \<Rightarrow> Chain \<times> 'a heap" where
  "Append_args c xs h = (let (s, h1) = variadic xs h in Append c s h1)"

section \<open>Notions used by the properties\<close>

text \<open>
  \<open>same_below h h'\<close>: the store \<open>h'\<close> comes from \<open>h\<close> by allocation only; no cell
  of an array that \<open>h\<close> had handed out has changed.
\<close>

definition same_below :: "'a heap \<Rightarrow> 'a heap \<Rightarrow> bool" where
  "same_below h h' \<longleftrightarrow>
     nalloc h \<le> nalloc h' \<and> growcap h' = growcap h \<and> (\<forall>a<nalloc h. cells h' a = cells h a)"

text \<open>
  The nesting \<open>c1(c2(...(cn(h))))\<close> of the documentation, as an expression of the
  language: the innermost call is evaluated first, a call of a nil constructor
  panics, and a panic ends the evaluation.
\<close>

fun nested ::
  "('c, 'rw, 'rq, 'w) Constructor option list \<Rightarrow> ('c, 'rw, 'rq, 'w) Constructor" where
  "nested [] h w = Inr (h, w)"
| "nested (k # ks) h w =
     (case nested ks h w of Inl e \<Rightarrow> Inl e | Inr (x, w') \<Rightarrow> call k x w')"

text \<open>
  What a materialization in the store \<open>hp\<close> returns for the outcome of the
  wrapping: the panic, or the adapter that binds the context to the wrapped handler,
  in either case with the store \<open>hp\<close> and the world the wrapping left.
\<close>

fun adapted ::
  "'c \<Rightarrow> 's \<Rightarrow> error \<times> 'w + ('c, 'rw, 'rq, 'w) ContextHandler \<times> 'w
     \<Rightarrow> error \<times> 's \<times> 'w + ('c, 'rw, 'rq, 'w) ContextAdapter \<times> 's \<times> 'w" where
  "adapted cnx hp (Inl (e, w)) = Inl (e, hp, w)"
| "adapted cnx hp (Inr (final, w)) = Inr (\<lparr>ctx = cnx, handler = final\<rparr>, hp, w)"

text \<open>
  What a call of the package leaves: the store, the world, and the result or failure
  without the store.
\<close>

fun store_after :: "'e \<times> 's \<times> 'w + 'a \<times> 's \<times> 'w \<Rightarrow> 's" where
  "store_after (Inl (e, hp, w)) = hp"
| "store_after (Inr (a, hp, w)) = hp"

fun world_after :: "'e \<times> 's \<times> 'w + 'a \<times> 's \<times> 'w \<Rightarrow> 'w" where
  "world_after (Inl (e, hp, w)) = w"
| "world_after (Inr (a, hp, w)) = w"

fun outcome :: "'e \<times> 's \<times> 'w + 'a \<times> 's \<times> 'w \<Rightarrow> 'e \<times> 'w + 'a \<times> 'w" where
  "outcome (Inl (e, hp, w)) = Inl (e, w)"
| "outcome (Inr (a, hp, w)) = Inr (a, w)"

text \<open>
  A middleware in the sense of the documentation of \<open>Then\<close> (every middleware calls
  the following one): its constructor has no effect of its own, and the handler it
  returns first does its own work \<open>pre\<close> on the world, then passes the request on to
  the handler it wraps.
\<close>

definition middleware ::
  "('c \<Rightarrow> 'rw \<Rightarrow> 'rq \<Rightarrow> 'w \<Rightarrow> 'w) \<Rightarrow> ('c, 'rw, 'rq, 'w) Constructor" where
  "middleware pre inner w =
     Inr (Some (Implementer (\<lambda>cx rw r v. ServeHTTPContext inner cx rw r (pre cx rw r v))), w)"

text \<open>
  A constructor that makes its own invocation visible: the world carries a record of
  invocations, and each call of \<open>recording i f\<close> adds \<open>i\<close> to it and returns
  \<open>f\<close> of the handler it is given.
\<close>

definition recording ::
  "nat \<Rightarrow> (('c, 'rw, 'rq, nat list \<times> 'w) ContextHandler \<Rightarrow> ('c, 'rw, 'rq, nat list \<times> 'w) ContextHandler)
     \<Rightarrow> ('c, 'rw, 'rq, nat list \<times> 'w) Constructor" where
  "recording i f x w = Inr (f x, (fst w @ [i], snd w))"

text \<open>
  Between the record \<open>tr\<close> and the record \<open>tr'\<close>, each of the constructors
  \<open>0, ..., n - 1\<close> has been invoked exactly once.
\<close>

definition each_once :: "nat \<Rightarrow> nat list \<Rightarrow> nat list \<Rightarrow> bool" where
  "each_once n tr tr' \<longleftrightarrow> list_all (\<lambda>i. count_list tr' i = Suc (count_list tr i)) [0..<n]"

section \<open>Example values\<close>

text \<open>
  An empty store whose runtime leaves room for two more elements when it grows a
  slice; a middleware that logs its name in a world that is a log; a terminal handler
  that logs its name and what it was called with.
\<close>

definition store0 :: "'a heap" where
  "store0 = \<lparr>cells = (\<lambda>a j. None), nalloc = 0, growcap = (\<lambda>old n. n + 2)\<rparr>"

definition logging :: "string \<Rightarrow> (string, string, string, string list) Constructor" where
  "logging t = middleware (\<lambda>cx rw r v. v @ [t])"

definition answering :: "string \<Rightarrow> (string, string, string, string list) ContextHandler" where
  "answering t = Some (Implementer (\<lambda>cx rw r v. Inr (v @ [t, cx, rw, r])))"

text \<open>
  \<open>stdChain := New(m1, m2)\<close> with the logging middlewares \<open>A\<close> and \<open>B\<close>, and the
  empty chain \<open>New()\<close>, each with the store the call leaves.
\<close>

definition log_chain :: "Chain \<times> (string, string, string, string list) Constructor heap" where
  "log_chain = New_args [Some (logging ''A''), Some (logging ''B'')] store0"

definition empty_chain :: "Chain \<times> (string, string, string, string list) Constructor heap" where
  "empty_chain = New_args [] store0"

text \<open>
  A handler function that leaves the world as it is, and the chain of two
  constructors that record their invocations as \<open>0\<close> and \<open>1\<close> and return the
  handler they are given.
\<close>

definition silent :: "('c, 'rw, 'rq, 'w) serve" where
  "silent cx rw r v = Inr v"

definition rec_chain :: "Chain \<times> (string, string, string, nat list \<times> unit) Constructor heap" where
  "rec_chain = New_args [Some (recording 0 id), Some (recording 1 id)] store0"

text \<open>
  Chains over a store of numbers, where only the order of the elements matters:
  \<open>New(1, 2)\<close>, then \<open>New(3, 4)\<close>, then \<open>New()\<close>.
\<close>

definition chain12 :: "Chain \<times> nat heap" where
  "chain12 = New_args [Some 1, Some 2] store0"

definition chain34 :: "Chain \<times> nat heap" where
  "chain34 = New_args [Some 3, Some 4] (snd chain12)"

definition chain0 :: "Chain \<times> nat heap" where
  "chain0 = New_args [] (snd chain34)"

section \<open>The store: basic facts\<close>

lemma length_elems [simp]: "length (elems h s) = len s"
  by (simp add: elems_def)

lemma nth_elems [simp]: "i < len s \<Longrightarrow> elems h s ! i = index h s i"
  by (simp add: elems_def)

lemma elems_len0 [simp]: "len s = 0 \<Longrightarrow> elems h s = []"
  by (simp add: elems_def)

lemma elems_eqI:
  "len s = len t \<Longrightarrow> (\<And>i. i < len s \<Longrightarrow> index h s i = index h' t i)
     \<Longrightarrow> elems h s = elems h' t"
  by (simp add: elems_def)

lemma same_below_refl [simp]: "same_below h h"
  by (simp add: same_below_def)

lemma same_below_trans: "same_below h h1 \<Longrightarrow> same_below h1 h2 \<Longrightarrow> same_below h h2"
  by (auto simp: same_below_def)

lemma same_below_index: "same_below h h' \<Longrightarrow> allocated h s \<Longrightarrow> index h' s i = index h s i"
  by (cases s) (auto simp: same_below_def)

lemma same_below_elems: "same_below h h' \<Longrightarrow> allocated h s \<Longrightarrow> elems h' s = elems h s"
  by (simp add: elems_def same_below_index)

lemma same_below_allocated: "same_below h h' \<Longrightarrow> allocated h s \<Longrightarrow> allocated h' s"
  by (cases s) (auto simp: same_below_def)

lemma make_slice_same_below: "same_below h (snd (make_slice n h))"
  by (simp add: make_slice_def same_below_def)

lemma copy_slice_same_below:
  "allocated h' d \<Longrightarrow> same_below h h'
     \<Longrightarrow> (\<And>a off n c. d = Slice a off n c \<Longrightarrow> nalloc h \<le> a)
     \<Longrightarrow> same_below h (copy_slice d src h')"
  by (cases d) (auto simp: same_below_def Let_def)

lemma variadic_elems: "elems (snd (variadic xs h)) (fst (variadic xs h)) = xs"
  by (auto simp: variadic_def intro!: nth_equalityI)

lemma variadic_same_below: "same_below h (snd (variadic xs h))"
  by (simp add: variadic_def same_below_def)

lemma variadic_allocated: "allocated (snd (variadic xs h)) (fst (variadic xs h))"
  by (simp add: variadic_def)

section \<open>New and Append on the store\<close>

lemma New_same_below: "same_below h (snd (New xs h))"
  by (auto simp: New_def append_slice_def Let_def same_below_def)

lemma New_elems: "elems (snd (New xs h)) (constructors (fst (New xs h))) = elems h xs"
  by (auto simp: New_def append_slice_def Let_def intro!: elems_eqI)

lemma New_allocated: "allocated (snd (New xs h)) (constructors (fst (New xs h)))"
  by (auto simp: New_def append_slice_def Let_def)

lemma Append_eq:
  "Append c xs h =
     New (Slice (nalloc h) 0 (len (constructors c) + len xs) (len (constructors c) + len xs))
       (copy_slice (Slice (nalloc h) (len (constructors c)) (len xs) (len xs)) xs
         (copy_slice (Slice (nalloc h) 0 (len (constructors c) + len xs) (len (constructors c) + len xs))
            (constructors c) (snd (make_slice (len (constructors c) + len xs) h))))"
  by (simp add: Append_def make_slice_def Let_def del: copy_slice.simps)

lemma Append_pre:
  assumes "allocated h (constructors c)" "allocated h xs"
  shows "elems (copy_slice (Slice (nalloc h) (len (constructors c)) (len xs) (len xs)) xs
           (copy_slice (Slice (nalloc h) 0 (len (constructors c) + len xs) (len (constructors c) + len xs))
              (constructors c) (snd (make_slice (len (constructors c) + len xs) h))))
          (Slice (nalloc h) 0 (len (constructors c) + len xs) (len (constructors c) + len xs))
        = elems h (constructors c) @ elems h xs"
proof -
  let ?s = "constructors c"
  let ?a = "nalloc h"
  let ?h1 = "snd (make_slice (len ?s + len xs) h)"
  have sb: "same_below h ?h1" by (rule make_slice_same_below)
  have e1: "elems ?h1 ?s = elems h ?s" using sb assms(1) by (rule same_below_elems)
  let ?h2 = "copy_slice (Slice ?a 0 (len ?s + len xs) (len ?s + len xs)) ?s ?h1"
  have sb2: "same_below h ?h2"
    by (rule copy_slice_same_below[OF _ sb]) (simp_all add: make_slice_def)
  have e2: "elems ?h2 xs = elems h xs" using sb2 assms(2) by (rule same_below_elems)
  show ?thesis
    using e1 e2 unfolding make_slice_def snd_conv
    by (auto simp: Let_def nth_append intro!: nth_equalityI)
qed

lemma Append_elems:
  assumes "allocated h (constructors c)" "allocated h xs"
  shows "elems (snd (Append c xs h)) (constructors (fst (Append c xs h)))
           = elems h (constructors c) @ elems h xs"
  unfolding Append_eq New_elems by (rule Append_pre[OF assms])

lemma Append_same_below: "same_below h (snd (Append c xs h))"
proof -
  let ?n = "len (constructors c) + len xs"
  let ?h1 = "snd (make_slice ?n h)"
  let ?h2 = "copy_slice (Slice (nalloc h) 0 ?n ?n) (constructors c) ?h1"
  let ?h3 = "copy_slice (Slice (nalloc h) (len (constructors c)) (len xs) (len xs)) xs ?h2"
  have 1: "same_below h ?h1" by (rule make_slice_same_below)
  have 2: "same_below h ?h2"
    by (rule copy_slice_same_below[OF _ 1]) (simp_all add: make_slice_def)
  have 3: "same_below h ?h3"
    by (rule copy_slice_same_below[OF _ 2]) (simp_all add: make_slice_def Let_def)
  have "same_below ?h3 (snd (New (Slice (nalloc h) 0 ?n ?n) ?h3))" by (rule New_same_below)
  with 3 show ?thesis unfolding Append_eq by (rule same_below_trans)
qed

lemma Append_result:
  "(len (constructors c) + len xs = 0 \<and> constructors (fst (Append c xs h)) = NilSlice) \<or>
   (0 < len (constructors c) + len xs \<and>
    (\<exists>k. constructors (fst (Append c xs h))
            = Slice (Suc (nalloc h)) 0 (len (constructors c) + len xs) k
        \<and> len (constructors c) + len xs \<le> k))"
  unfolding Append_eq
  by (auto simp: New_def append_slice_def Let_def make_slice_def)

lemma New_args_elems: "elems (snd (New_args xs h)) (constructors (fst (New_args xs h))) = xs"
  by (simp add: New_args_def split_beta New_elems variadic_elems)

lemma New_args_same_below: "same_below h (snd (New_args xs h))"
  unfolding New_args_def split_beta Let_def
  by (rule same_below_trans[OF variadic_same_below New_same_below])

lemma New_args_allocated: "allocated (snd (New_args xs h)) (constructors (fst (New_args xs h)))"
  by (simp add: New_args_def split_beta New_allocated)

lemma Append_args_elems:
  assumes "allocated h (constructors c)"
  shows "elems (snd (Append_args c xs h)) (constructors (fst (Append_args c xs h)))
           = elems h (constructors c) @ xs"
proof -
  let ?v = "variadic xs h"
  have sb: "same_below h (snd ?v)" by (rule variadic_same_below)
  have "allocated (snd ?v) (constructors c)" using sb assms by (rule same_below_allocated)
  from Append_elems[OF this variadic_allocated]
  have "elems (snd (Append c (fst ?v) (snd ?v))) (constructors (fst (Append c (fst ?v) (snd ?v))))
          = elems (snd ?v) (constructors c) @ xs"
    by (simp add: variadic_elems)
  then show ?thesis
    by (simp add: Append_args_def split_beta same_below_elems[OF sb assms])
qed

section \<open>The wrapping loop\<close>

lemma nested_snoc:
  "nested (ks @ [k]) h w =
     (case call k h w of Inl e \<Rightarrow> Inl e | Inr (x, w') \<Rightarrow> nested ks x w')"
  by (induction ks) (auto split: sum.splits)

lemma wrap_loop_nested:
  "n \<le> len s \<Longrightarrow>
     wrap_loop hp s n final w =
       (case nested (take n (elems hp s)) final w of
          Inl (e, w') \<Rightarrow> Inl (e, hp, w')
        | Inr (x, w') \<Rightarrow> Inr (x, hp, w'))"
proof (induction n arbitrary: final w)
  case 0
  then show ?case by simp
next
  case (Suc n)
  then have "take (Suc n) (elems hp s) = take n (elems hp s) @ [index hp s n]"
    by (simp add: take_Suc_conv_app_nth)
  with Suc show ?case
    by (simp add: nested_snoc split: sum.splits prod.splits)
qed

lemma ThenWithContext_Some:
  "ThenWithContext c cnx (Some d) hp w
     = adapted cnx hp (nested (elems hp (constructors c)) (Some d) w)"
  by (simp add: ThenWithContext_def wrap_loop_nested NewContextAdapter_def
      split: sum.splits prod.splits)

lemma ThenWithContext_None:
  "ThenWithContext c cnx None hp w = Inl (Fatal ''Error Contexthandler cant be null'', hp, w)"
  by (simp add: ThenWithContext_def)

lemma store_after_adapted [simp]: "store_after (adapted cnx hp r) = hp"
  by (cases "(cnx, hp, r)" rule: adapted.cases) simp_all

lemma outcome_adapted: "outcome (adapted cnx hp r) = outcome (adapted cnx hp' r)"
  by (cases "(cnx, hp, r)" rule: adapted.cases) simp_all

lemma middleware_app:
  "middleware pre inner w =
     Inr (Some (Implementer (\<lambda>cx rw r v. ServeHTTPContext inner cx rw r (pre cx rw r v))), w)"
  by (simp add: middleware_def)

lemma nested_middleware:
  "\<exists>x. nested (map (\<lambda>p. Some (middleware p)) ps) h w = Inr (x, w) \<and>
       (\<forall>cx rw r v. ServeHTTPContext x cx rw r v
                      = ServeHTTPContext h cx rw r (fold (\<lambda>p. p cx rw r) ps v))"
proof (induction ps)
  case Nil
  then show ?case by simp
next
  case (Cons p ps)
  then obtain x where x: "nested (map (\<lambda>p. Some (middleware p)) ps) h w = Inr (x, w)"
    and sx: "\<And>cx rw r v. ServeHTTPContext x cx rw r v
                      = ServeHTTPContext h cx rw r (fold (\<lambda>p. p cx rw r) ps v)"
    by blast
  let ?y = "Some (Implementer (\<lambda>cx rw r v. ServeHTTPContext x cx rw r (p cx rw r v)))"
  have "nested (map (\<lambda>p. Some (middleware p)) (p # ps)) h w = middleware p x w"
    using x by simp
  then have "nested (map (\<lambda>p. Some (middleware p)) (p # ps)) h w = Inr (?y, w)"
    by (simp only: middleware_app)
  moreover have "ServeHTTPContext ?y cx rw r v
                   = ServeHTTPContext h cx rw r (fold (\<lambda>p. p cx rw r) (p # ps) v)" for cx rw r v
    by (simp add: sx)
  ultimately show ?case by blast
qed

section \<open>Materialization\<close>

text \<open>
  C1. For a chain \<open>New(c1, ..., cn)\<close>, a context and a terminal handler that is not
  nil, \<open>ThenWithContext\<close> returns the adapter that holds the context and the
  handler \<open>c1(c2(...(cn(h))))\<close>: the constructors are applied from the last to the
  first (and a panic of one of them is the outcome of the call). When the
  constructors are middlewares, a request dispatched through the adapter passes
  through the work of \<open>c1\<close> first, then that of \<open>c2\<close>, ..., then that of \<open>cn\<close>,
  and then reaches \<open>h\<close>.
\<close>

theorem ThenWithContext_nesting:
  assumes "New_args cs hp0 = (c, hp)" and "h \<noteq> None"
  shows "ThenWithContext c cnx h hp w = adapted cnx hp (nested cs h w) \<and>
         (\<forall>ps. cs = map (\<lambda>p. Some (middleware p)) ps \<longrightarrow>
            (\<exists>ca. ThenWithContext c cnx h hp w = Inr (ca, hp, w) \<and>
               (\<forall>rw req v. ServeHTTP ca rw req v
                  = ServeHTTPContext h cnx rw req (fold (\<lambda>p. p cnx rw req) ps v))))"
proof -
  have e: "elems hp (constructors c) = cs"
    using New_args_elems[of cs hp0] assms(1) by simp
  from assms(2) obtain d where d: "h = Some d" by blast
  have 1: "ThenWithContext c cnx h hp w = adapted cnx hp (nested cs h w)"
    by (simp add: d ThenWithContext_Some e)
  have 2: "\<exists>ca. ThenWithContext c cnx h hp w = Inr (ca, hp, w) \<and>
               (\<forall>rw req v. ServeHTTP ca rw req v
                  = ServeHTTPContext h cnx rw req (fold (\<lambda>p. p cnx rw req) ps v))"
    if "cs = map (\<lambda>p. Some (middleware p)) ps" for ps
  proof -
    from nested_middleware[of ps h w]
    obtain x where x: "nested (map (\<lambda>p. Some (middleware p)) ps) h w = Inr (x, w)"
      and sx: "\<And>cx rw r v. ServeHTTPContext x cx rw r v
                      = ServeHTTPContext h cx rw r (fold (\<lambda>p. p cx rw r) ps v)"
      by blast
    show ?thesis
      by (simp add: 1 that x ServeHTTP_def sx)
  qed
  from 1 2 show ?thesis by blast
qed

theorem ThenWithContext_nesting_witness:
  "New_args [Some (logging ''A''), Some (logging ''B'')] store0 = log_chain \<and>
   answering ''C'' \<noteq> None \<and>
   (\<exists>ca. ThenWithContext (fst log_chain) ''ctx'' (answering ''C'') (snd log_chain) []
            = Inr (ca, snd log_chain, [])
       \<and> ServeHTTP ca ''rw'' ''req'' [] = Inr [''A'', ''B'', ''C'', ''ctx'', ''rw'', ''req''])"
proof -
  let ?cs = "[Some (logging ''A''), Some (logging ''B'')]"
  have n: "New_args ?cs store0 = (fst log_chain, snd log_chain)" by (simp add: log_chain_def)
  have t: "answering ''C'' \<noteq> None" by (simp add: answering_def)
  from ThenWithContext_nesting[OF n t, of "''ctx''" "[]", THEN conjunct2]
  have "\<forall>ps. ?cs = map (\<lambda>p. Some (middleware p)) ps \<longrightarrow>
            (\<exists>ca. ThenWithContext (fst log_chain) ''ctx'' (answering ''C'') (snd log_chain) []
                     = Inr (ca, snd log_chain, []) \<and>
               (\<forall>rw req v. ServeHTTP ca rw req v
                  = ServeHTTPContext (answering ''C'') ''ctx'' rw req
                      (fold (\<lambda>p. p ''ctx'' rw req) ps v)))" .
  from this[rule_format, of "[\<lambda>cx rw r v. v @ [''A''], \<lambda>cx rw r v. v @ [''B'']]"]
  obtain ca where
    "ThenWithContext (fst log_chain) ''ctx'' (answering ''C'') (snd log_chain) []
       = Inr (ca, snd log_chain, [])"
    and "\<And>rw req v. ServeHTTP ca rw req v
           = ServeHTTPContext (answering ''C'') ''ctx'' rw req
               (fold (\<lambda>p. p ''ctx'' rw req) [\<lambda>cx rw r v. v @ [''A''], \<lambda>cx rw r v. v @ [''B'']] v)"
    by (auto simp: logging_def)
  with t show ?thesis
    by (auto simp: answering_def log_chain_def)
qed

text \<open>
  C6. The empty chain \<open>New()\<close>, materialized with a context and a terminal handler
  that is not nil, gives the adapter that holds the terminal handler itself: no
  constructor runs, the world is as before, and a dispatch through the adapter is a
  call of the terminal handler with the bound context.
\<close>

theorem empty_chain_is_terminal:
  assumes "New_args [] hp0 = (c, hp)" and "h \<noteq> None"
  shows "ThenWithContext c cnx h hp w = Inr (\<lparr>ctx = cnx, handler = h\<rparr>, hp, w) \<and>
         ServeHTTP \<lparr>ctx = cnx, handler = h\<rparr> rw req v = ServeHTTPContext h cnx rw req v"
proof -
  have e: "elems hp (constructors c) = []"
    using New_args_elems[of "[]" hp0] assms(1) by simp
  from assms(2) obtain d where d: "h = Some d" by blast
  show ?thesis
    by (simp add: d ThenWithContext_Some e ServeHTTP_def)
qed

theorem empty_chain_is_terminal_witness:
  "New_args [] store0 = empty_chain \<and> answering ''C'' \<noteq> None \<and>
   ThenWithContext (fst empty_chain) ''ctx'' (answering ''C'') (snd empty_chain) []
     = Inr (\<lparr>ctx = ''ctx'', handler = answering ''C''\<rparr>, snd empty_chain, []) \<and>
   ServeHTTP \<lparr>ctx = ''ctx'', handler = answering ''C''\<rparr> ''rw'' ''req'' []
     = Inr [''C'', ''ctx'', ''rw'', ''req'']"
proof -
  have n: "New_args [] store0 = (fst empty_chain, snd empty_chain)" by (simp add: empty_chain_def)
  have t: "answering ''C'' \<noteq> None" by (simp add: answering_def)
  from empty_chain_is_terminal[OF n t, of "''ctx''" "[]" "''rw''" "''req''" "[]"] t
  show ?thesis by (simp add: answering_def empty_chain_def)
qed

text \<open>
  C2. \<open>ThenWithContext\<close> with a nil terminal handler ends in \<open>log.Fatalf\<close>, for
  every chain, context, store and world, and at once: store and world are as they
  were. The call returns no adapter, and no handler stands in for the missing one.
\<close>

theorem ThenWithContext_nil_terminal:
  "ThenWithContext c cnx None hp w = Inl (Fatal ''Error Contexthandler cant be null'', hp, w) \<and>
   (\<forall>ca hp' w'. ThenWithContext c cnx None hp w \<noteq> Inr (ca, hp', w'))"
  by (simp add: ThenWithContext_def)

text \<open>
  C8. \<open>ThenFuncWithContext\<close> with a nil function is \<open>ThenWithContext\<close> with a nil
  handler: the same fatal error. (The function is not wrapped first: a nil function
  wrapped in the interface would be a handler that is not nil.)
\<close>

theorem ThenFuncWithContext_nil_terminal:
  "ThenFuncWithContext c cnx None hp w = ThenWithContext c cnx None hp w \<and>
   ThenFuncWithContext c cnx None hp w = Inl (Fatal ''Error Contexthandler cant be null'', hp, w)"
  by (simp add: ThenFuncWithContext_def ThenWithContext_def)

section \<open>The adapter\<close>

text \<open>
  C9. A dispatch through an adapter is the call of the held handler's
  \<open>ServeHTTPContext\<close> with the held context, the given response writer and the given
  request, and nothing else: the outcome and the world after it are those of that
  call.
\<close>

theorem ServeHTTP_delegates:
  "ServeHTTP ca rw req w = ServeHTTPContext (handler ca) (ctx ca) rw req w \<and>
   ServeHTTP (NewContextAdapter cx h) rw req w = ServeHTTPContext h cx rw req w \<and>
   ServeHTTP (NewContextAdapter cx (Some (Implementer f))) rw req w = f cx rw req w \<and>
   ServeHTTP (NewContextAdapter cx (Some (HandlerFunc (Some g)))) rw req w = g cx rw req w \<and>
   ServeHTTP (NewContextAdapter cx' (answering t)) rw' req' v = Inr (v @ [t, cx', rw', req'])"
  by (simp add: ServeHTTP_def NewContextAdapter_def answering_def)

section \<open>Append and Extend\<close>

lemma chain34_first_allocated: "allocated (snd chain34) (constructors (fst chain12))"
  unfolding chain34_def chain12_def
  using New_args_same_below New_args_allocated by (rule same_below_allocated)

lemma chain34_second_allocated: "allocated (snd chain34) (constructors (fst chain34))"
  unfolding chain34_def by (rule New_args_allocated)

lemma chain34_first_elems: "elems (snd chain34) (constructors (fst chain12)) = [Some 1, Some 2]"
proof -
  have "elems (snd chain34) (constructors (fst chain12)) = elems (snd chain12) (constructors (fst chain12))"
    unfolding chain34_def chain12_def
    using New_args_same_below New_args_allocated by (rule same_below_elems)
  then show ?thesis by (simp only: chain12_def New_args_elems)
qed

lemma chain34_second_elems: "elems (snd chain34) (constructors (fst chain34)) = [Some 3, Some 4]"
  unfolding chain34_def by (rule New_args_elems)

text \<open>
  C4. \<open>c.Append(more...)\<close> returns a chain whose sequence is that of \<open>c\<close> followed
  by the given constructors, in order: both when a slice is passed (\<open>xs...\<close>) and
  when the constructors are written out.
\<close>

theorem Append_sequence:
  assumes "allocated h (constructors c)" and "allocated h xs"
  shows "elems (snd (Append c xs h)) (constructors (fst (Append c xs h)))
           = elems h (constructors c) @ elems h xs \<and>
         elems (snd (Append_args c ms h)) (constructors (fst (Append_args c ms h)))
           = elems h (constructors c) @ ms"
  using Append_elems[OF assms] Append_args_elems[OF assms(1), of ms] by simp

theorem Append_sequence_witness:
  "allocated (snd chain34) (constructors (fst chain12)) \<and>
   allocated (snd chain34) (constructors (fst chain34)) \<and>
   elems (snd (Append (fst chain12) (constructors (fst chain34)) (snd chain34)))
     (constructors (fst (Append (fst chain12) (constructors (fst chain34)) (snd chain34))))
     = [Some 1, Some 2, Some 3, Some 4] \<and>
   elems (snd (Append_args (fst chain12) [Some 5] (snd chain34)))
     (constructors (fst (Append_args (fst chain12) [Some 5] (snd chain34))))
     = [Some 1, Some 2, Some 5]"
  using Append_sequence[OF chain34_first_allocated chain34_second_allocated, of "[Some 5]"]
    chain34_first_allocated chain34_second_allocated
  unfolding chain34_first_elems chain34_second_elems by simp

text \<open>
  C5. \<open>c.Extend(d)\<close> is \<open>c.Append\<close> applied to the sequence of \<open>d\<close>: it is the
  call \<open>c.Append(d.constructors...)\<close>, so it leaves every array of the store as it
  was, and its result holds the sequence of \<open>c\<close> followed by that of \<open>d\<close>, which
  is also what \<open>c.Append\<close> gives when the constructors of \<open>d\<close> are written out.
\<close>

theorem Extend_is_Append:
  "Extend c d h = Append c (constructors d) h \<and>
   same_below h (snd (Extend c d h)) \<and>
   (allocated h (constructors c) \<and> allocated h (constructors d) \<longrightarrow>
      elems (snd (Extend c d h)) (constructors (fst (Extend c d h)))
        = elems h (constructors c) @ elems h (constructors d) \<and>
      elems (snd (Extend c d h)) (constructors (fst (Extend c d h)))
        = elems (snd (Append_args c (elems h (constructors d)) h))
            (constructors (fst (Append_args c (elems h (constructors d)) h))))"
  by (simp add: Extend_def Append_same_below Append_elems Append_args_elems)

theorem Extend_is_Append_witness:
  "allocated (snd chain34) (constructors (fst chain12)) \<and>
   allocated (snd chain34) (constructors (fst chain34)) \<and>
   Extend (fst chain12) (fst chain34) (snd chain34)
     = Append (fst chain12) (constructors (fst chain34)) (snd chain34) \<and>
   elems (snd (Extend (fst chain12) (fst chain34) (snd chain34)))
     (constructors (fst (Extend (fst chain12) (fst chain34) (snd chain34))))
     = [Some 1, Some 2, Some 3, Some 4] \<and>
   elems (snd (Append_args (fst chain12) [Some 3, Some 4] (snd chain34)))
     (constructors (fst (Append_args (fst chain12) [Some 3, Some 4] (snd chain34))))
     = [Some 1, Some 2, Some 3, Some 4]"
proof -
  let ?e = "Extend (fst chain12) (fst chain34) (snd chain34)"
  let ?a = "Append_args (fst chain12) [Some 3, Some 4] (snd chain34)"
  note a = chain34_first_allocated chain34_second_allocated
  from Extend_is_Append[of "fst chain12" "fst chain34" "snd chain34"] a
  have 1: "?e = Append (fst chain12) (constructors (fst chain34)) (snd chain34)"
    and 2: "elems (snd ?e) (constructors (fst ?e)) = [Some 1, Some 2, Some 3, Some 4]"
    and 3: "elems (snd ?e) (constructors (fst ?e)) = elems (snd ?a) (constructors (fst ?a))"
    unfolding chain34_first_elems chain34_second_elems append_Cons append_Nil by blast+
  from 2 3 have "elems (snd ?a) (constructors (fst ?a)) = [Some 1, Some 2, Some 3, Some 4]"
    by simp
  with a 1 2 show ?thesis by blast
qed

section \<open>The receiver of Append and Extend\<close>

lemma Append_allocated: "allocated (snd (Append c xs h)) (constructors (fst (Append c xs h)))"
  unfolding Append_eq by (rule New_allocated)

lemma ThenWithContext_same_elems:
  "elems hp' (constructors c) = elems hp (constructors c)
     \<Longrightarrow> outcome (ThenWithContext c cnx t hp' w) = outcome (ThenWithContext c cnx t hp w)"
  by (cases t) (simp_all add: ThenWithContext_Some ThenWithContext_None outcome_adapted[of cnx hp' _ hp])

lemma Append_footprint_new:
  "allocated h s \<Longrightarrow> footprint (constructors (fst (Append c xs h))) \<inter> footprint s = {}"
  using Append_result[of c xs h] by (cases s) auto

lemma write_elsewhere:
  "allocated h s \<Longrightarrow> (a, j) \<in> footprint (constructors (fst (Append c xs h)))
     \<Longrightarrow> elems (h'\<lparr>cells := (cells h')(a := (cells h' a)(j := v))\<rparr>) s = elems h' s"
  using Append_result[of c xs h] by (cases s) (auto simp: elems_def)

lemma log_chain_allocated: "allocated (snd log_chain) (constructors (fst log_chain))"
  unfolding log_chain_def by (rule New_args_allocated)

lemma log_chain_elems:
  "elems (snd log_chain) (constructors (fst log_chain)) = [Some (logging ''A''), Some (logging ''B'')]"
  unfolding log_chain_def by (rule New_args_elems)

text \<open>
  C3. \<open>Append\<close>, and likewise \<open>Extend\<close>, leaves the receiver as it was and gives the
  result a sequence that shares no storage with the receiver's. After
  \<open>c' := c.Append(xs...)\<close> (or \<open>c.Extend(d)\<close>), for a receiver that is a slice of the
  store: no array that existed before has changed; the receiver reads as before and
  materializes as before; no cell of the result is a cell of the receiver, so a write
  to any cell of the result does not show in the receiver; and extending either chain
  further leaves the sequence of the other as it is.
\<close>

theorem Append_leaves_receiver:
  assumes "allocated h (constructors c)"
    and "Append c xs h = (c', h') \<or> Extend c d h = (c', h')"
  shows "same_below h h' \<and>
         elems h' (constructors c) = elems h (constructors c) \<and>
         outcome (ThenWithContext c cnx t h' w) = outcome (ThenWithContext c cnx t h w) \<and>
         footprint (constructors c') \<inter> footprint (constructors c) = {} \<and>
         (\<forall>a j v. (a, j) \<in> footprint (constructors c') \<longrightarrow>
            elems (h'\<lparr>cells := (cells h')(a := (cells h' a)(j := v))\<rparr>) (constructors c)
              = elems h' (constructors c)) \<and>
         elems (snd (Append c ys h')) (constructors c') = elems h' (constructors c') \<and>
         elems (snd (Append c' ys h')) (constructors c) = elems h (constructors c)"
proof -
  from assms(2) obtain zs where r: "Append c zs h = (c', h')"
    by (auto simp: Extend_def)
  then have c': "c' = fst (Append c zs h)" and h': "h' = snd (Append c zs h)" by simp_all
  have sb: "same_below h h'" unfolding h' by (rule Append_same_below)
  have e: "elems h' (constructors c) = elems h (constructors c)"
    using sb assms(1) by (rule same_below_elems)
  have m: "outcome (ThenWithContext c cnx t h' w) = outcome (ThenWithContext c cnx t h w)"
    using e by (rule ThenWithContext_same_elems)
  have f: "footprint (constructors c') \<inter> footprint (constructors c) = {}"
    unfolding c' using assms(1) by (rule Append_footprint_new)
  have wr: "elems (h'\<lparr>cells := (cells h')(a := (cells h' a)(j := v))\<rparr>) (constructors c)
              = elems h' (constructors c)"
    if "(a, j) \<in> footprint (constructors c')" for a j v
    using assms(1) that unfolding c' by (rule write_elsewhere)
  have ac': "allocated h' (constructors c')" unfolding c' h' by (rule Append_allocated)
  have ac: "allocated h' (constructors c)" using sb assms(1) by (rule same_below_allocated)
  have x1: "elems (snd (Append c ys h')) (constructors c') = elems h' (constructors c')"
    using Append_same_below ac' by (rule same_below_elems)
  have "elems (snd (Append c' ys h')) (constructors c) = elems h' (constructors c)"
    using Append_same_below ac by (rule same_below_elems)
  with e have x2: "elems (snd (Append c' ys h')) (constructors c) = elems h (constructors c)"
    by simp
  from sb e m f wr x1 x2 show ?thesis by blast
qed

theorem Append_leaves_receiver_witness:
  "allocated (snd log_chain) (constructors (fst log_chain)) \<and>
   same_below (snd log_chain) (snd (Extend (fst log_chain) (fst log_chain) (snd log_chain))) \<and>
   elems (snd (Extend (fst log_chain) (fst log_chain) (snd log_chain))) (constructors (fst log_chain))
     = [Some (logging ''A''), Some (logging ''B'')] \<and>
   outcome (ThenWithContext (fst log_chain) ''ctx'' (answering ''C'')
       (snd (Extend (fst log_chain) (fst log_chain) (snd log_chain))) [])
     = outcome (ThenWithContext (fst log_chain) ''ctx'' (answering ''C'') (snd log_chain) []) \<and>
   footprint (constructors (fst (Extend (fst log_chain) (fst log_chain) (snd log_chain))))
     \<inter> footprint (constructors (fst log_chain)) = {}"
proof -
  let ?e = "Extend (fst log_chain) (fst log_chain) (snd log_chain)"
  have "Append (fst log_chain) NilSlice (snd log_chain) = (fst ?e, snd ?e)
          \<or> ?e = (fst ?e, snd ?e)"
    by simp
  from Append_leaves_receiver[OF log_chain_allocated this, of "''ctx''" "answering ''C''" "[]" NilSlice]
    log_chain_allocated
  show ?thesis unfolding log_chain_elems by blast
qed

section \<open>Repeated materialization\<close>

lemma nested_recording:
  "nested (map (\<lambda>(i, f). Some (recording i f)) (zip [k..<k + length fs] fs)) h (tr, u)
     = Inr (foldr (\<lambda>f x. f x) fs h, (tr @ rev [k..<k + length fs], u))"
proof (induction fs arbitrary: k)
  case Nil
  then show ?case by simp
next
  case (Cons f fs)
  have u: "[k..<k + length (f # fs)] = k # [Suc k..<Suc k + length fs]"
    by (simp add: upt_conv_Cons del: upt_Suc)
  have z: "zip [k..<k + length (f # fs)] (f # fs) = (k, f) # zip [Suc k..<Suc k + length fs] fs"
    unfolding u by simp
  have r: "rev [k..<k + length (f # fs)] = rev [Suc k..<Suc k + length fs] @ [k]"
    unfolding u by simp
  show ?case
    unfolding z r using Cons.IH[of "Suc k"]
    by (simp add: recording_def)
qed

lemma rec_chain_elems:
  "elems (snd rec_chain) (constructors (fst rec_chain))
     = [Some (recording 0 id), Some (recording 1 id)]"
  unfolding rec_chain_def by (rule New_args_elems)

lemma upt_0_2: "[0..<length [x, y]] = [0, 1]"
  by (simp add: upt_conv_Cons del: upt_Suc)

lemma count_list_upt: "count_list [0..<n] i = (if i < n then 1 else 0)"
  by (induction n) auto

lemma each_once_rev_upt: "each_once n tr (tr @ rev [0..<n])"
  by (simp add: each_once_def list_all_iff count_list_upt)

lemma store_after_ThenWithContext: "store_after (ThenWithContext c cnx h hp w) = hp"
  by (cases h) (simp_all add: ThenWithContext_None ThenWithContext_Some)

lemma ThenFuncWithContext_Some:
  "ThenFuncWithContext c cnx (Some f) hp w
     = ThenWithContext c cnx (Some (HandlerFunc (Some f))) hp w"
  by (simp add: ThenFuncWithContext_def)

lemma ThenFuncWithContext_None:
  "ThenFuncWithContext c cnx None hp w = ThenWithContext c cnx None hp w"
  by (simp add: ThenFuncWithContext_def)

lemma ThenWithContext_recording:
  assumes "elems hp (constructors c) = map (\<lambda>(i, g). Some (recording i g)) (zip [0..<length fs] fs)"
  shows "ThenWithContext c cnx (Some d) hp (tr, u)
           = Inr (\<lparr>ctx = cnx, handler = foldr (\<lambda>g x. g x) fs (Some d)\<rparr>, hp,
                  (tr @ rev [0..<length fs], u))"
  unfolding ThenWithContext_Some assms using nested_recording[of 0 fs "Some d" tr u] by simp

text \<open>
  C7, as stated, fails for a call with a nil terminal: the call ends in
  \<open>log.Fatalf\<close> before the loop, so no stored constructor is invoked. The chain
  below stores two constructors that record their invocations; the call with a nil
  terminal fails with the record as it was, empty, which is not a record of one
  invocation of each.
\<close>

theorem nil_terminal_runs_no_constructor:
  "elems (snd rec_chain) (constructors (fst rec_chain))
     = [Some (recording 0 id), Some (recording 1 id)] \<and>
   ThenWithContext (fst rec_chain) ''ctx'' None (snd rec_chain) ([], ())
     = Inl (Fatal ''Error Contexthandler cant be null'', snd rec_chain, ([], ())) \<and>
   \<not> each_once 2 []
       (fst (world_after (ThenWithContext (fst rec_chain) ''ctx'' None (snd rec_chain) ([], ()))))"
proof -
  have "[0..<2] = [0, Suc 0]" by (simp add: upt_conv_Cons del: upt_Suc)
  then have "\<not> each_once 2 [] []" by (simp add: each_once_def)
  then show ?thesis
    by (simp add: rec_chain_elems ThenWithContext_None)
qed

text \<open>
  C7, amended. Materialization has no effect on the chain's stored sequence: whatever
  the terminal and however the call ends, \<open>ThenWithContext\<close> and
  \<open>ThenFuncWithContext\<close> leave the store they were given. A call with a nil terminal
  fails at once, with the world as it was: it invokes no constructor. A call with a
  terminal that is not nil is the nesting over the stored sequence: the constructors
  are invoked from the last to the first, and a panic of one of them ends the call.
  When the stored constructors record their invocations and return, the call adds
  every index exactly once to the record, from the last to the first; a second
  materialization of the same chain, in the world the first one left, does so again
  and wraps its own terminal; and a call with a nil terminal leaves the record as it
  was.
\<close>

theorem materialization_runs_each_constructor_once:
  "store_after (ThenWithContext c cnx h hp w) = hp \<and>
   store_after (ThenFuncWithContext c cnx fn hp w) = hp \<and>
   ThenWithContext c cnx None hp w = Inl (Fatal ''Error Contexthandler cant be null'', hp, w) \<and>
   ThenFuncWithContext c cnx None hp w = Inl (Fatal ''Error Contexthandler cant be null'', hp, w) \<and>
   ThenWithContext c cnx (Some d) hp w
     = adapted cnx hp (nested (elems hp (constructors c)) (Some d) w) \<and>
   ThenFuncWithContext c cnx (Some f) hp w
     = adapted cnx hp (nested (elems hp (constructors c)) (Some (HandlerFunc (Some f))) w) \<and>
   (elems hp (constructors c) = map (\<lambda>(i, g). Some (recording i g)) (zip [0..<length fs] fs) \<longrightarrow>
      ThenWithContext c cnx (Some d) hp (tr, u)
        = Inr (\<lparr>ctx = cnx, handler = foldr (\<lambda>g x. g x) fs (Some d)\<rparr>, hp,
               (tr @ rev [0..<length fs], u)) \<and>
      each_once (length fs) tr
        (fst (world_after (ThenWithContext c cnx (Some d) hp (tr, u)))) \<and>
      ThenFuncWithContext c cnx' (Some f) hp (tr @ rev [0..<length fs], u)
        = Inr (\<lparr>ctx = cnx', handler = foldr (\<lambda>g x. g x) fs (Some (HandlerFunc (Some f)))\<rparr>, hp,
               (tr @ rev [0..<length fs] @ rev [0..<length fs], u)) \<and>
      each_once (length fs) (tr @ rev [0..<length fs])
        (fst (world_after (ThenFuncWithContext c cnx' (Some f) hp (tr @ rev [0..<length fs], u)))) \<and>
      fst (world_after (ThenWithContext c cnx None hp (tr, u))) = tr)"
proof -
  have 1: "store_after (ThenWithContext c cnx h hp w) = hp"
    by (rule store_after_ThenWithContext)
  have 2: "store_after (ThenFuncWithContext c cnx fn hp w) = hp"
    by (cases fn) (simp_all add: ThenFuncWithContext_None ThenFuncWithContext_Some
        store_after_ThenWithContext)
  have 3: "ThenWithContext c cnx None hp w
             = Inl (Fatal ''Error Contexthandler cant be null'', hp, w)" for w
    by (rule ThenWithContext_None)
  have 4: "ThenFuncWithContext c cnx None hp w
             = Inl (Fatal ''Error Contexthandler cant be null'', hp, w)"
    by (simp add: ThenFuncWithContext_None ThenWithContext_None)
  have 5: "ThenWithContext c cnx (Some d) hp w
             = adapted cnx hp (nested (elems hp (constructors c)) (Some d) w)"
    by (rule ThenWithContext_Some)
  have 6: "ThenFuncWithContext c cnx (Some f) hp w
             = adapted cnx hp (nested (elems hp (constructors c)) (Some (HandlerFunc (Some f))) w)"
    by (simp add: ThenFuncWithContext_Some ThenWithContext_Some)
  have 7: "ThenWithContext c cnx (Some d) hp (tr, u)
        = Inr (\<lparr>ctx = cnx, handler = foldr (\<lambda>g x. g x) fs (Some d)\<rparr>, hp,
               (tr @ rev [0..<length fs], u)) \<and>
      each_once (length fs) tr
        (fst (world_after (ThenWithContext c cnx (Some d) hp (tr, u)))) \<and>
      ThenFuncWithContext c cnx' (Some f) hp (tr @ rev [0..<length fs], u)
        = Inr (\<lparr>ctx = cnx', handler = foldr (\<lambda>g x. g x) fs (Some (HandlerFunc (Some f)))\<rparr>, hp,
               (tr @ rev [0..<length fs] @ rev [0..<length fs], u)) \<and>
      each_once (length fs) (tr @ rev [0..<length fs])
        (fst (world_after (ThenFuncWithContext c cnx' (Some f) hp (tr @ rev [0..<length fs], u)))) \<and>
      fst (world_after (ThenWithContext c cnx None hp (tr, u))) = tr"
    if e: "elems hp (constructors c) = map (\<lambda>(i, g). Some (recording i g)) (zip [0..<length fs] fs)"
  proof -
    have a: "ThenWithContext c cnx (Some d) hp (tr, u)
        = Inr (\<lparr>ctx = cnx, handler = foldr (\<lambda>g x. g x) fs (Some d)\<rparr>, hp,
               (tr @ rev [0..<length fs], u))"
      using e by (rule ThenWithContext_recording)
    have b: "ThenFuncWithContext c cnx' (Some f) hp (tr @ rev [0..<length fs], u)
        = Inr (\<lparr>ctx = cnx', handler = foldr (\<lambda>g x. g x) fs (Some (HandlerFunc (Some f)))\<rparr>, hp,
               (tr @ rev [0..<length fs] @ rev [0..<length fs], u))"
      unfolding ThenFuncWithContext_Some
      using ThenWithContext_recording[OF e, of cnx' "HandlerFunc (Some f)" "tr @ rev [0..<length fs]" u]
      by simp
    have c: "each_once (length fs) tr
        (fst (world_after (ThenWithContext c cnx (Some d) hp (tr, u))))"
      unfolding a by (simp add: each_once_rev_upt)
    have d: "each_once (length fs) (tr @ rev [0..<length fs])
        (fst (world_after (ThenFuncWithContext c cnx' (Some f) hp (tr @ rev [0..<length fs], u))))"
      unfolding b using each_once_rev_upt[of "length fs" "tr @ rev [0..<length fs]"] by simp
    have n: "fst (world_after (ThenWithContext c cnx None hp (tr, u))) = tr"
      by (simp add: ThenWithContext_None)
    from a b c d n show ?thesis by blast
  qed
  from 1 2 3 4 5 6 7 show ?thesis by blast
qed

theorem materialization_runs_each_constructor_once_witness:
  "elems (snd rec_chain) (constructors (fst rec_chain))
     = map (\<lambda>(i, g). Some (recording i g)) (zip [0..<length [id, id]] [id, id]) \<and>
   ThenWithContext (fst rec_chain) ''ctx'' (Some (Implementer silent)) (snd rec_chain) ([], ())
     = Inr (\<lparr>ctx = ''ctx'', handler = Some (Implementer silent)\<rparr>, snd rec_chain, ([1, 0], ())) \<and>
   each_once 2 []
     (fst (world_after
            (ThenWithContext (fst rec_chain) ''ctx'' (Some (Implementer silent)) (snd rec_chain) ([], ())))) \<and>
   ThenFuncWithContext (fst rec_chain) ''ctx2'' (Some silent) (snd rec_chain) ([1, 0], ())
     = Inr (\<lparr>ctx = ''ctx2'', handler = Some (HandlerFunc (Some silent))\<rparr>, snd rec_chain,
            ([1, 0, 1, 0], ())) \<and>
   fst (world_after (ThenWithContext (fst rec_chain) ''ctx'' None (snd rec_chain) ([], ()))) = []"
proof -
  have e: "elems (snd rec_chain) (constructors (fst rec_chain))
     = map (\<lambda>(i, g). Some (recording i g)) (zip [0..<length [id, id]] [id, id])"
    unfolding rec_chain_elems upt_0_2 by simp
  have l: "[0..<2] = [0, Suc 0]"
    by (simp add: upt_conv_Cons del: upt_Suc)
  note m = materialization_runs_each_constructor_once[
      of "fst rec_chain" "''ctx''" None "snd rec_chain" "([], ())" None "Implementer silent" silent
         "[id, id]" "[]" "()" "''ctx2''",
      THEN conjunct2, THEN conjunct2, THEN conjunct2, THEN conjunct2, THEN conjunct2,
      THEN conjunct2, rule_format, OF e]
  have 1: "ThenWithContext (fst rec_chain) ''ctx'' (Some (Implementer silent)) (snd rec_chain) ([], ())
       = Inr (\<lparr>ctx = ''ctx'', handler = Some (Implementer silent)\<rparr>, snd rec_chain, ([1, 0], ()))"
    using m[THEN conjunct1] by (simp add: l)
  have 2: "each_once 2 []
     (fst (world_after
            (ThenWithContext (fst rec_chain) ''ctx'' (Some (Implementer silent)) (snd rec_chain) ([], ()))))"
    using m[THEN conjunct2, THEN conjunct1] by (simp add: numeral_2_eq_2)
  have 3: "ThenFuncWithContext (fst rec_chain) ''ctx2'' (Some silent) (snd rec_chain) ([1, 0], ())
       = Inr (\<lparr>ctx = ''ctx2'', handler = Some (HandlerFunc (Some silent))\<rparr>, snd rec_chain,
              ([1, 0, 1, 0], ()))"
    using m[THEN conjunct2, THEN conjunct2, THEN conjunct1] by (simp add: l)
  have 4: "fst (world_after (ThenWithContext (fst rec_chain) ''ctx'' None (snd rec_chain) ([], ()))) = []"
    using m[THEN conjunct2, THEN conjunct2, THEN conjunct2, THEN conjunct2] .
  note 1 2 3 4
  with e show ?thesis by blast
qed

section \<open>Appending nothing\<close>

lemma Append_args_nothing: "Append_args c [] h = Append c NilSlice h"
  by (simp add: Append_args_def variadic_def)

lemma New_args_nothing: "New_args [] h = (\<lparr>constructors = NilSlice\<rparr>, h)"
  by (simp add: New_args_def variadic_def New_def append_slice_def)

lemma chain12_len: "len (constructors (fst chain12)) = 2"
  using length_elems[of "snd chain12" "constructors (fst chain12)"]
  unfolding chain12_def New_args_elems by simp

text \<open>
  C10, as stated, fails for the empty chain: \<open>c.Append()\<close> and \<open>c.Extend(New())\<close>
  then return a chain that holds the nil slice, as the receiver does, and no backing
  storage at all (\<open>append\<close> of nothing to the nil slice is the nil slice).
\<close>

theorem Append_of_nothing_to_empty_is_nil:
  "constructors (fst chain0) = NilSlice \<and>
   constructors (fst (Append_args (fst chain0) [] (snd chain0))) = NilSlice \<and>
   constructors (fst (Extend (fst chain0) (fst (New_args [] (snd chain0))) (snd (New_args [] (snd chain0)))))
     = NilSlice \<and>
   footprint (constructors (fst (Append_args (fst chain0) [] (snd chain0)))) = {}"
  by (simp add: chain0_def New_args_nothing Append_args_nothing Extend_def Append_eq
      New_def append_slice_def)

text \<open>
  C10, amended. \<open>c.Append()\<close> and \<open>c.Extend(New())\<close> are both the call of
  \<open>Append\<close> with the nil slice. The result reads element for element as \<open>c\<close> does, no
  array that existed before has changed, and no cell of the result is a cell of the
  receiver. When \<open>c\<close> is not empty the result holds a newly allocated array, large
  enough for the elements of \<open>c\<close>; when \<open>c\<close> is empty it holds the nil slice.
\<close>

theorem Append_of_nothing:
  assumes "allocated h (constructors c)"
  shows "Append_args c [] h = Append c NilSlice h \<and>
         Extend c (fst (New_args [] h)) (snd (New_args [] h)) = Append c NilSlice h \<and>
         elems (snd (Append c NilSlice h)) (constructors (fst (Append c NilSlice h)))
           = elems h (constructors c) \<and>
         same_below h (snd (Append c NilSlice h)) \<and>
         footprint (constructors (fst (Append c NilSlice h))) \<inter> footprint (constructors c) = {} \<and>
         (if len (constructors c) = 0
          then constructors (fst (Append c NilSlice h)) = NilSlice
          else \<exists>k. constructors (fst (Append c NilSlice h))
                     = Slice (Suc (nalloc h)) 0 (len (constructors c)) k
                   \<and> len (constructors c) \<le> k
                   \<and> Suc (nalloc h) < nalloc (snd (Append c NilSlice h)))"
proof -
  have 1: "Append_args c [] h = Append c NilSlice h" by (rule Append_args_nothing)
  have 2: "Extend c (fst (New_args [] h)) (snd (New_args [] h)) = Append c NilSlice h"
    by (simp add: New_args_nothing Extend_def)
  have 3: "elems (snd (Append c NilSlice h)) (constructors (fst (Append c NilSlice h)))
           = elems h (constructors c)"
    using Append_elems[OF assms, of NilSlice] by simp
  have 4: "same_below h (snd (Append c NilSlice h))" by (rule Append_same_below)
  have 5: "footprint (constructors (fst (Append c NilSlice h))) \<inter> footprint (constructors c) = {}"
    using assms by (rule Append_footprint_new)
  have 6: "(if len (constructors c) = 0
          then constructors (fst (Append c NilSlice h)) = NilSlice
          else \<exists>k. constructors (fst (Append c NilSlice h))
                     = Slice (Suc (nalloc h)) 0 (len (constructors c)) k
                   \<and> len (constructors c) \<le> k
                   \<and> Suc (nalloc h) < nalloc (snd (Append c NilSlice h)))"
    unfolding Append_eq
    by (auto simp: New_def append_slice_def Let_def make_slice_def)
  from 1 2 3 4 5 6 show ?thesis by blast
qed

theorem Append_of_nothing_witness:
  "allocated (snd chain34) (constructors (fst chain12)) \<and>
   elems (snd (Append_args (fst chain12) [] (snd chain34)))
      (constructors (fst (Append_args (fst chain12) [] (snd chain34)))) = [Some 1, Some 2] \<and>
   (\<exists>k. constructors (fst (Append_args (fst chain12) [] (snd chain34)))
           = Slice (Suc (nalloc (snd chain34))) 0 2 k \<and> 2 \<le> k) \<and>
   footprint (constructors (fst (Append_args (fst chain12) [] (snd chain34))))
     \<inter> footprint (constructors (fst chain12)) = {}"
proof -
  from Append_of_nothing[OF chain34_first_allocated] chain34_first_allocated
  show ?thesis unfolding chain34_first_elems chain12_len by auto
qed

end
